theory Spec2Isabelle
  imports Main "HOL-Library.Sublist" "HOL-Library.Multiset"
begin

section \<open>Language mode: documents, positions and spans\<close>

text \<open>
  The JavaScript language mode (\<open>getJavaScriptMode\<close>) talks to the TypeScript language
  service in offsets and to the editor in line/character positions. Offsets, lines and
  characters are non-negative integers of the protocol and are modelled as \<open>nat\<close>.
\<close>

record position =
  line :: nat
  character :: nat

record lsp_range =
  range_start :: position
  range_end :: position

record text_document =
  uri :: string
  languageId :: string
  version :: nat
  getText :: string

record text_span =
  span_start :: "nat option"
  span_length :: "nat option"

record location =
  loc_uri :: string
  loc_range :: lsp_range

text \<open>
  Modelled from the spec: \<open>TextDocument.positionAt\<close> and \<open>TextDocument.offsetAt\<close> belong to the
  text-document library the mode imports through \<open>./languageModes\<close>; it is not among the
  sources. The model is the library's line-offset table: a line starts at offset 0 and
  after every \<open>\n\<close>, \<open>\r\n\<close> or lone \<open>\r\<close>; \<open>positionAt\<close> clamps the offset into
  the text and reports the last line starting at or before it; \<open>offsetAt\<close> clamps the
  character into its line.
\<close>

fun lineOffsetsFrom :: "nat \<Rightarrow> string \<Rightarrow> nat list" where
  "lineOffsetsFrom i [] = []"
| "lineOffsetsFrom i [c] =
     (if c = CHR 0x0D \<or> c = CHR 0x0A then [i + 1] else [])"
| "lineOffsetsFrom i (c # d # cs) =
     (if c = CHR 0x0D \<and> d = CHR 0x0A then (i + 2) # lineOffsetsFrom (i + 2) cs
      else if c = CHR 0x0D \<or> c = CHR 0x0A then (i + 1) # lineOffsetsFrom (i + 1) (d # cs)
      else lineOffsetsFrom (i + 1) (d # cs))"

definition getLineOffsets :: "text_document \<Rightarrow> nat list" where
  "getLineOffsets doc = 0 # lineOffsetsFrom 0 (getText doc)"

definition positionAt :: "text_document \<Rightarrow> nat \<Rightarrow> position" where
  "positionAt doc offset =
     (let off = min offset (length (getText doc));
          lineOffsets = getLineOffsets doc;
          low = length (takeWhile (\<lambda>lo. lo \<le> off) lineOffsets);
          ln = low - 1
      in \<lparr>line = ln, character = off - lineOffsets ! ln\<rparr>)"

definition offsetAt :: "text_document \<Rightarrow> position \<Rightarrow> nat" where
  "offsetAt doc pos =
     (let lineOffsets = getLineOffsets doc in
      if line pos \<ge> length lineOffsets then length (getText doc)
      else
        (let lineOffset = lineOffsets ! line pos;
             nextLineOffset =
               (if line pos + 1 < length lineOffsets then lineOffsets ! (line pos + 1)
                else length (getText doc))
         in max (min (lineOffset + character pos) nextLineOffset) lineOffset))"

text \<open>\<open>convertRange\<close>: a span without a start becomes the empty range at offset 0; a span
  without a length has length 0 (\<open>span.length || 0\<close>).\<close>

definition convertRange :: "text_document \<Rightarrow> text_span \<Rightarrow> lsp_range" where
  "convertRange document span =
     (case span_start span of
        None \<Rightarrow> (let pos = positionAt document 0 in \<lparr>range_start = pos, range_end = pos\<rparr>)
      | Some st \<Rightarrow>
          (let startPosition = positionAt document st;
               endPosition = positionAt document
                 (st + (case span_length span of None \<Rightarrow> 0 | Some l \<Rightarrow> l))
           in \<lparr>range_start = startPosition, range_end = endPosition\<rparr>))"

section \<open>Language mode: the service host\<close>

text \<open>Node's \<open>path\<close> module and \<open>process.platform\<close>, as far as \<open>deschemeURI\<close> reads them.\<close>

record node_path =
  normalize :: "string \<Rightarrow> string"
  sep :: char
  win32 :: bool

text \<open>\<open>String.prototype.replace\<close> with a string pattern: the first occurrence only.\<close>

fun replaceFirst :: "string \<Rightarrow> string \<Rightarrow> string \<Rightarrow> string" where
  "replaceFirst pat rep [] = (if pat = [] then rep else [])"
| "replaceFirst pat rep (c # cs) =
     (if prefix pat (c # cs) then rep @ drop (length pat) (c # cs)
      else c # replaceFirst pat rep cs)"

definition deschemeURI :: "node_path \<Rightarrow> string \<Rightarrow> string" where
  "deschemeURI np u =
     (if \<not> prefix ''file://'' u then u
      else
        (let newPath = normalize np (replaceFirst ''file://'' '''' u);
             newPath = map (\<lambda>c. if c = sep np then CHR ''/'' else c) newPath
         in if \<not> win32 np then newPath
            else replaceFirst ''%3A'' '':'' (drop 1 newPath)))"

record workspace_folder =
  folder_name :: string
  folder_uri :: string

record workspace =
  folders :: "workspace_folder list"

text \<open>
  The closure of \<open>getLanguageServiceHost\<close>: the two mutable slots and the promise
  \<open>jsLanguageService\<close>, which is created when the host is created and never assigned
  again. A language service is identified by the number it was created under; the
  runtime counts the imports of the library chunk and the services created.
\<close>

record runtime =
  libraryLoads :: nat
  servicesCreated :: nat

record host =
  scriptKind :: string
  currentTextDocument :: text_document
  currentWorkspace :: "workspace option"
  jsLanguageService :: nat

definition getLanguageServiceHost :: "runtime \<Rightarrow> string \<Rightarrow> runtime \<times> host" where
  "getLanguageServiceHost rt kind =
     (rt\<lparr>libraryLoads := libraryLoads rt + 1, servicesCreated := servicesCreated rt + 1\<rparr>,
      \<lparr>scriptKind = kind,
       currentTextDocument =
         \<lparr>uri = ''init'', languageId = ''javascript'', version = 1, getText = ''''\<rparr>,
       currentWorkspace = None,
       jsLanguageService = servicesCreated rt\<rparr>)"

definition getLanguageService ::
  "runtime \<times> host \<Rightarrow> text_document \<Rightarrow> workspace \<Rightarrow> (runtime \<times> host) \<times> nat" where
  "getLanguageService st jsDocument ws =
     (case st of (rt, h) \<Rightarrow>
        ((rt, h\<lparr>currentTextDocument := jsDocument, currentWorkspace := Some ws\<rparr>),
         jsLanguageService h))"

text \<open>What the engine reads back through the \<open>ts.LanguageServiceHost\<close> callbacks.\<close>

definition getScriptFileNames :: "node_path \<Rightarrow> host \<Rightarrow> string list" where
  "getScriptFileNames np h = [deschemeURI np (uri (currentTextDocument h)), ''jquery'']"

text \<open>A sequence of \<open>getLanguageService\<close> calls on one host, with the handles returned.\<close>

fun getLanguageServices ::
  "runtime \<times> host \<Rightarrow> (text_document \<times> workspace) list \<Rightarrow> (runtime \<times> host) \<times> nat list" where
  "getLanguageServices st [] = (st, [])"
| "getLanguageServices st ((d, ws) # calls) =
     (case getLanguageService st d ws of
        (st', svc) \<Rightarrow>
          (case getLanguageServices st' calls of (st'', svcs) \<Rightarrow> (st'', svc # svcs)))"

section \<open>Language mode: operations\<close>

text \<open>
  The engine's answers, as functions of the document the host currently serves. Every
  operation of the mode first fetches the embedded document (\<open>jsDocuments.get\<close>, a
  parameter here), then calls \<open>getLanguageService\<close>, then queries the engine.
\<close>

record document_span =
  fileName :: string
  textSpan :: text_span

record completion_entry_details =
  displayParts :: "string list"
  documentationParts :: "string list"

datatype navigation_bar_item =
  NavigationBarItem (item_text: string) (item_kind: string) (spans: "text_span list")
    (childItems: "navigation_bar_item list")

record engine =
  getDefinitionAtPosition :: "text_document \<Rightarrow> string \<Rightarrow> nat \<Rightarrow> document_span list option"
  getReferencesAtPosition :: "text_document \<Rightarrow> string \<Rightarrow> nat \<Rightarrow> document_span list option"
  getCompletionEntryDetails ::
    "text_document \<Rightarrow> string \<Rightarrow> nat \<Rightarrow> string \<Rightarrow> completion_entry_details option"
  getNavigationBarItems :: "text_document \<Rightarrow> string \<Rightarrow> navigation_bar_item list option"

record mode =
  paths :: node_path
  service :: engine
  jsDocuments :: "text_document \<Rightarrow> text_document"
  modeWorkspace :: workspace

definition findDefinition ::
  "mode \<Rightarrow> runtime \<times> host \<Rightarrow> text_document \<Rightarrow> position \<Rightarrow>
   (runtime \<times> host) \<times> location list option" where
  "findDefinition m st document pos =
     (let jsDocument = jsDocuments m document;
          (st', svc) = getLanguageService st jsDocument (modeWorkspace m);
          filePath = deschemeURI (paths m) (uri jsDocument);
          def = getDefinitionAtPosition (service m) (currentTextDocument (snd st'))
                  filePath (offsetAt jsDocument pos)
      in (st',
          case def of
            Some ds \<Rightarrow>
              Some (map (\<lambda>d. \<lparr>loc_uri = uri document,
                                loc_range = convertRange jsDocument (textSpan d)\<rparr>)
                        (filter (\<lambda>d. fileName d = uri jsDocument) ds))
          | None \<Rightarrow> None))"

definition findReferences ::
  "mode \<Rightarrow> runtime \<times> host \<Rightarrow> text_document \<Rightarrow> position \<Rightarrow>
   (runtime \<times> host) \<times> location list" where
  "findReferences m st document pos =
     (let jsDocument = jsDocuments m document;
          (st', svc) = getLanguageService st jsDocument (modeWorkspace m);
          filePath = deschemeURI (paths m) (uri jsDocument);
          refs = getReferencesAtPosition (service m) (currentTextDocument (snd st'))
                   filePath (offsetAt jsDocument pos)
      in (st',
          case refs of
            Some ds \<Rightarrow>
              map (\<lambda>d. \<lparr>loc_uri = uri document,
                          loc_range = convertRange jsDocument (textSpan d)\<rparr>)
                  (filter (\<lambda>d. fileName d = filePath) ds)
          | None \<Rightarrow> []))"






section \<open>Language mode: document symbols\<close>













fun subtree :: "navigation_bar_item \<Rightarrow> navigation_bar_item list" where
  "subtree (NavigationBarItem t k sp children) =
     NavigationBarItem t k sp children # concat (map subtree children)"


definition symbolItems :: "navigation_bar_item list \<Rightarrow> navigation_bar_item list" where
  "symbolItems its = filter (\<lambda>it. item_kind it \<noteq> ''script'') (concat (map subtree its))"



section \<open>Concrete inputs of the language mode\<close>

definition docA :: text_document where
  "docA = \<lparr>uri = ''file:///proj/a.html'', languageId = ''javascript'', version = 3,
            getText = ''var a;''\<rparr>"

definition docB :: text_document where
  "docB = \<lparr>uri = ''file:///proj/b.html'', languageId = ''javascript'', version = 7,
            getText = ''var b;''\<rparr>"

definition posix :: node_path where
  "posix = \<lparr>normalize = (\<lambda>p. p), sep = CHR ''/'', win32 = False\<rparr>"

definition rtZero :: runtime where
  "rtZero = \<lparr>libraryLoads = 0, servicesCreated = 0\<rparr>"

definition wsEmpty :: workspace where
  "wsEmpty = \<lparr>folders = []\<rparr>"

definition engineA :: engine where
  "engineA =
     \<lparr>getDefinitionAtPosition = (\<lambda>cur f off.
        Some [\<lparr>fileName = ''file:///proj/a.html'',
               textSpan = \<lparr>span_start = Some 4, span_length = Some 1\<rparr>\<rparr>,
              \<lparr>fileName = ''/proj/lib.d.ts'',
               textSpan = \<lparr>span_start = Some 0, span_length = Some 2\<rparr>\<rparr>]),
      getReferencesAtPosition = (\<lambda>cur f off.
        Some [\<lparr>fileName = ''/proj/other.js'',
               textSpan = \<lparr>span_start = Some 9, span_length = Some 1\<rparr>\<rparr>,
              \<lparr>fileName = ''/proj/a.html'',
               textSpan = \<lparr>span_start = Some 4, span_length = Some 1\<rparr>\<rparr>]),
      getCompletionEntryDetails = (\<lambda>cur f off l.
        if l = ''a'' then Some \<lparr>displayParts = [''var '', ''a''], documentationParts = []\<rparr>
        else None),
      getNavigationBarItems = (\<lambda>cur f. None)\<rparr>"

definition modeA :: mode where
  "modeA = \<lparr>paths = posix, service = engineA, jsDocuments = (\<lambda>d. d), modeWorkspace = wsEmpty\<rparr>"

definition hostA :: "runtime \<times> host" where
  "hostA = getLanguageServiceHost rtZero ''JS''"









section \<open>File walker: the collaborators\<close>

text \<open>
  \<open>FileWalker\<close> enumerates files through callbacks of Node's \<open>fs\<close>, the repository's
  \<open>extfs\<close>, \<open>glob\<close> and \<open>filters\<close> modules and a spawned native command. None of them is
  among the sources; the walker is verified for every behaviour of them. An error is
  represented by its \<open>code\<close>; the file system is the same throughout one walk.
\<close>

type_synonym error_code = string

type_synonym glob_expression = "string list"

record env =
  readdir :: "string \<Rightarrow> error_code + string list"
  stat_isDirectory :: "string \<Rightarrow> error_code + bool"
  lstat_isSymbolicLink :: "string \<Rightarrow> error_code + bool"
  realpath :: "string \<Rightarrow> error_code + string"
  glob_match :: "glob_expression \<Rightarrow> string \<Rightarrow> string list option \<Rightarrow> bool"
  matchesFuzzy :: "string \<Rightarrow> string \<Rightarrow> bool \<Rightarrow> bool"
  paths_join :: "string \<Rightarrow> string \<Rightarrow> string"
  paths_basename :: "string \<Rightarrow> string"
  paths_dirname :: "string \<Rightarrow> string"
  paths_isAbsolute :: "string \<Rightarrow> bool"
  paths_sep :: char
  platform :: string
  normalizeNFC :: "string \<Rightarrow> string"
  nativeOutput :: "string \<Rightarrow> string list"

text \<open>The wire format \<open>IRawSearch\<close>. An absent exclude pattern is the empty expression.\<close>

record raw_search =
  cfg_rootPaths :: "string list"
  cfg_filePattern :: "string option"
  cfg_excludePattern :: glob_expression
  cfg_includePattern :: "glob_expression option"
  cfg_maxResults :: "int option"
  cfg_matchFuzzy :: bool
  cfg_disableFastFileLookup :: bool

section \<open>File walker: the event loop\<close>

text \<open>
  An operation of \<open>fs\<close> or the native command that has been started and whose callback
  has not run yet, with what the callback's closure holds. A callback of a
  \<open>flow.parallel\<close> is named by the index of its item followed by the name of the join;
  the join of the root paths is \<open>[]\<close>, and the join a \<open>recurseWithNodeJS\<close> starts has the
  name of the callback it reports to.
\<close>

datatype task =
    StatFilePattern "string list"
  | ReaddirRoot string "nat list"
  | StatRelative string "string list" "nat list"
  | ReaddirEntry string string string "nat list"
  | Lstat string string "string list" "nat list"
  | Realpath string string "string list" "nat list"
  | NativeCommand string "nat list"

record join =
  errors :: "error_code option list"
  didErrorOccur :: bool
  doneCount :: nat

text \<open>
  The fields of the \<open>FileWalker\<close> object, followed by the event loop of one \<open>walk\<close>: the
  operations in flight, the joins, the paths passed to \<open>onResult\<close>, the calls of \<open>done\<close>
  and the real paths the portable walk has descended into, each in order.
\<close>

record search =
  config :: raw_search
  filePattern :: "string option"
  excludePattern :: glob_expression
  includePattern :: "glob_expression option"
  maxResults :: "int option"
  isLimitHit :: bool
  resultCount :: nat
  isCanceled :: bool
  searchInPath :: bool
  matchFuzzy :: bool
  disableFastFileLookup :: bool
  runningNative :: "nat list option"
  walkedPaths :: "string list"
  pending :: "task list"
  joins :: "nat list \<Rightarrow> join option"
  emitted :: "string list"
  finished :: "(error_code option \<times> bool) list"
  descended :: "string list"

definition truthy :: "string option \<Rightarrow> bool" where
  "truthy s = (case s of None \<Rightarrow> False | Some v \<Rightarrow> v \<noteq> [])"

definition replaceAll :: "string \<Rightarrow> char \<Rightarrow> char \<Rightarrow> string" where
  "replaceAll s a b = map (\<lambda>c. if c = a then b else c) s"

definition newFileWalker :: "env \<Rightarrow> raw_search \<Rightarrow> search" where
  "newFileWalker e cfg =
     (let inPath = truthy (cfg_filePattern cfg) \<and> paths_sep e \<in> set (the (cfg_filePattern cfg))
      in \<lparr>config = cfg,
          filePattern =
            (if inPath then map_option (\<lambda>p. replaceAll p (CHR 0x5C) (CHR ''/'')) (cfg_filePattern cfg)
             else cfg_filePattern cfg),
          excludePattern = cfg_excludePattern cfg,
          includePattern = cfg_includePattern cfg,
          maxResults = (case cfg_maxResults cfg of None \<Rightarrow> None
                        | Some m \<Rightarrow> if m = 0 then None else Some m),
          isLimitHit = False, resultCount = 0, isCanceled = False,
          searchInPath = inPath,
          matchFuzzy = cfg_matchFuzzy cfg,
          disableFastFileLookup = cfg_disableFastFileLookup cfg,
          runningNative = None, walkedPaths = [],
          pending = [], joins = (\<lambda>_. None), emitted = [], finished = [], descended = []\<rparr>)"

definition terminateNative :: "search \<Rightarrow> search" where
  "terminateNative s = (case runningNative s of None \<Rightarrow> s | Some _ \<Rightarrow> s\<lparr>runningNative := None\<rparr>)"

definition resetState :: "search \<Rightarrow> search" where
  "resetState s = terminateNative (s\<lparr>walkedPaths := [], resultCount := 0, isLimitHit := False\<rparr>)"

definition cancel :: "search \<Rightarrow> search" where
  "cancel s = terminateNative (s\<lparr>isCanceled := True\<rparr>)"

definition onResult :: "string \<Rightarrow> search \<Rightarrow> search" where
  "onResult p s = s\<lparr>emitted := emitted s @ [p]\<rparr>"

definition onDone :: "error_code option \<Rightarrow> search \<Rightarrow> search" where
  "onDone err s = s\<lparr>finished := finished s @ [(err, isLimitHit s)]\<rparr>"

text \<open>
  Modelled from the spec: \<open>flow.parallel\<close> (\<open>vs/base/node/flow\<close>) is not among the
  sources. It is the fan-out join of the spec: it calls the function on every item, keeps
  the error of each item at the item's index, and calls the final callback once, when the
  last item has reported, with the errors if any item reported one and with \<open>null\<close>
  otherwise; on an empty list it calls the final callback at once.

  The final callback of the root join is \<open>done(err ? err[0] : null, this.isLimitHit)\<close>;
  the final callback of a join of \<open>recurseWithNodeJS\<close> passes the first error that is not
  null (\<open>arrays.coalesce\<close>) to the callback the recursion reports to.
\<close>

fun callback :: "nat list \<Rightarrow> error_code option \<Rightarrow> search \<Rightarrow> search" where
  "callback [] err s = s"
| "callback (i # js) err s =
     (case joins s js of
        None \<Rightarrow> s
      | Some j \<Rightarrow>
          (let j' = \<lparr>errors = (errors j)[i := err],
                     didErrorOccur = (didErrorOccur j \<or> err \<noteq> None),
                     doneCount = doneCount j + 1\<rparr>;
               s' = s\<lparr>joins := (joins s)(js \<mapsto> j')\<rparr>
           in if doneCount j' = length (errors j')
              then (case js of
                      [] \<Rightarrow>
                        onDone (if didErrorOccur j'
                                then (case errors j' of [] \<Rightarrow> None | e # _ \<Rightarrow> e)
                                else None) s'
                    | _ # _ \<Rightarrow>
                        callback js
                          (if didErrorOccur j'
                           then (case filter (\<lambda>e. e \<noteq> None) (errors j') of
                                   [] \<Rightarrow> None | e # _ \<Rightarrow> e)
                           else None) s')
              else s'))"

definition startJoin :: "nat list \<Rightarrow> nat \<Rightarrow> search \<Rightarrow> search" where
  "startJoin js n s =
     s\<lparr>joins := (joins s)(js \<mapsto> \<lparr>errors = replicate n None, didErrorOccur = False,
                                    doneCount = 0\<rparr>)\<rparr>"

definition start :: "task \<Rightarrow> search \<Rightarrow> search" where
  "start t s = s\<lparr>pending := pending s @ [t]\<rparr>"

section \<open>File walker: the walk\<close>

definition isFilePatternMatch :: "env \<Rightarrow> search \<Rightarrow> string \<Rightarrow> string \<Rightarrow> bool" where
  "isFilePatternMatch e s name path =
     (if truthy (filePattern s)
      then matchesFuzzy e (the (filePattern s))
             (if matchFuzzy s \<or> searchInPath s then path else name) (matchFuzzy s)
      else True)"

definition included :: "env \<Rightarrow> search \<Rightarrow> string \<Rightarrow> string list option \<Rightarrow> bool" where
  "included e s path siblings =
     (case includePattern s of None \<Rightarrow> True | Some g \<Rightarrow> glob_match e g path siblings)"

text \<open>The three statements every candidate that passed the filters goes through:
  count it, raise \<open>isLimitHit\<close> when the count exceeds a set limit, emit it otherwise.\<close>

definition reportMatch :: "string \<Rightarrow> search \<Rightarrow> search" where
  "reportMatch p s =
     (let s1 = s\<lparr>resultCount := resultCount s + 1\<rparr>;
          s2 = (if (case maxResults s1 of None \<Rightarrow> False
                    | Some m \<Rightarrow> m \<noteq> 0 \<and> int (resultCount s1) > m)
                then s1\<lparr>isLimitHit := True\<rparr> else s1)
      in if \<not> isLimitHit s2 then onResult p s2 else s2)"

definition trimSlashes :: "string \<Rightarrow> string" where
  "trimSlashes p =
     rev (dropWhile (\<lambda>c. c = CHR ''/'') (rev (dropWhile (\<lambda>c. c = CHR ''/'') p)))"

text \<open>The function \<open>recurseWithNodeJS\<close> runs on one file of a listing, up to the
  \<open>readdir\<close> it starts.\<close>

definition visitEntry ::
  "env \<Rightarrow> string \<Rightarrow> string \<Rightarrow> string list \<Rightarrow> nat list \<Rightarrow> nat \<Rightarrow> string \<Rightarrow> search \<Rightarrow> search" where
  "visitEntry e absolutePath relativeParentPath files js i file s =
     (if isCanceled s \<or> isLimitHit s then callback (i # js) None s
      else
        (let siblings = (if cfg_filePattern (config s) = Some file then [] else files);
             relativeFilePath = trimSlashes (relativeParentPath @ ''/'' @ file)
         in if glob_match e (excludePattern s) relativeFilePath (Some siblings)
            then callback (i # js) None s
            else start (ReaddirEntry (paths_join e absolutePath file) relativeFilePath file
                          (i # js)) s))"

fun visitEntries ::
  "env \<Rightarrow> string \<Rightarrow> string \<Rightarrow> string list \<Rightarrow> nat list \<Rightarrow> nat \<Rightarrow> string list \<Rightarrow> search \<Rightarrow> search"
  where
  "visitEntries e absolutePath relativeParentPath files js i [] s = s"
| "visitEntries e absolutePath relativeParentPath files js i (file # rest) s =
     visitEntries e absolutePath relativeParentPath files js (Suc i) rest
       (visitEntry e absolutePath relativeParentPath files js i file s)"

definition recurseWithNodeJS ::
  "env \<Rightarrow> string \<Rightarrow> string \<Rightarrow> string list \<Rightarrow> nat list \<Rightarrow> search \<Rightarrow> search" where
  "recurseWithNodeJS e absolutePath relativeParentPath files js s =
     (if files = [] then callback js None s
      else visitEntries e absolutePath relativeParentPath files js 0 files
             (startJoin js (length files) s))"

definition recurseWithNativeCommand :: "string \<Rightarrow> nat list \<Rightarrow> search \<Rightarrow> search" where
  "recurseWithNativeCommand absolutePath js s =
     start (NativeCommand absolutePath js) (s\<lparr>runningNative := Some js\<rparr>)"

definition recurse :: "env \<Rightarrow> string \<Rightarrow> string list \<Rightarrow> nat list \<Rightarrow> search \<Rightarrow> search" where
  "recurse e absolutePath files js s =
     (if disableFastFileLookup s then recurseWithNodeJS e absolutePath '''' files js s
      else recurseWithNativeCommand absolutePath js s)"

fun startRoots :: "nat \<Rightarrow> string list \<Rightarrow> search \<Rightarrow> search" where
  "startRoots i [] s = s"
| "startRoots i (absolutePath # rest) s = startRoots (Suc i) rest (start (ReaddirRoot absolutePath [i]) s)"

text \<open>The callback of \<open>checkFilePatternAbsoluteMatch\<close>: report the pattern's file, then fan
  out over the root paths.\<close>

definition walkRoots :: "string list \<Rightarrow> bool \<Rightarrow> search \<Rightarrow> search" where
  "walkRoots rootPaths exists s =
     (let s1 = (if exists then onResult (the (filePattern s)) s else s)
      in if rootPaths = [] then onDone None s1
         else startRoots 0 rootPaths (startJoin [] (length rootPaths) s1))"

definition walk :: "env \<Rightarrow> string list \<Rightarrow> search \<Rightarrow> search" where
  "walk e rootPaths w =
     (let s = (resetState w)\<lparr>pending := [], joins := (\<lambda>_. None), emitted := [], finished := [],
                             descended := []\<rparr>
      in if \<not> truthy (filePattern s) \<or> \<not> paths_isAbsolute e (the (filePattern s))
         then walkRoots rootPaths False s
         else if the (filePattern s) \<in> set rootPaths then walkRoots rootPaths False s
         else start (StatFilePattern rootPaths) s)"

text \<open>\<open>realPathLink\<close> has answered with a real path: skip a path walked before, remember
  and descend into a new one.\<close>

definition walkRealPath ::
  "env \<Rightarrow> string \<Rightarrow> string \<Rightarrow> string list \<Rightarrow> nat list \<Rightarrow> string \<Rightarrow> search \<Rightarrow> search" where
  "walkRealPath e currentPath relativeFilePath children js rp s =
     (if rp \<in> set (walkedPaths s) then callback js None s
      else recurseWithNodeJS e currentPath relativeFilePath children js
             (s\<lparr>walkedPaths := walkedPaths s @ [rp], descended := descended s @ [rp]\<rparr>))"

section \<open>File walker: the native command\<close>

text \<open>
  \<open>recurseWithNativeCommand\<close> spawns \<open>find\<close> or \<open>dir\<close>; the \<open>close\<close> handler does the work.
  Output arriving after \<open>cancel\<close> is dropped, and a cancelled walker skips the handler's
  body, so the handler of a walker that is not cancelled has seen every line of the
  output. The two maps from a folder to its files keep the order in which keys were added.
\<close>

definition pushTo :: "(string \<times> string list) list \<Rightarrow> string \<Rightarrow> string \<Rightarrow> (string \<times> string list) list"
  where
  "pushTo m k v =
     (case map_of m k of
        None \<Rightarrow> m @ [(k, [v])]
      | Some _ \<Rightarrow> map (\<lambda>(k', vs). if k' = k then (k', vs @ [v]) else (k', vs)) m)"

definition perPathHandler ::
  "env \<Rightarrow> (string \<times> string list) list \<times> (string \<times> string list) list \<Rightarrow> string \<Rightarrow>
   (string \<times> string list) list \<times> (string \<times> string list) list" where
  "perPathHandler e maps p0 =
     (if p0 = [] then maps
      else
        (let p = (if platform e = ''darwin'' then normalizeNFC e p0 else p0);
             parent = paths_dirname e p
         in (pushTo (fst maps) parent p, pushTo (snd maps) parent (paths_basename e p))))"

definition toRelativeWithSlash :: "env \<Rightarrow> string \<Rightarrow> string \<Rightarrow> string" where
  "toRelativeWithSlash e absolutePath path =
     (let relativeFilePath = drop (length absolutePath + 1) path
      in if platform e \<noteq> ''darwin'' \<and> platform e \<noteq> ''linux''
         then replaceAll relativeFilePath (CHR 0x5C) (CHR ''/'')
         else relativeFilePath)"

text \<open>The \<open>do ... while\<close> over the parents of a folder: it ends when \<open>dirname\<close> reaches
  \<open>.\<close>, and not at all when it never does.\<close>

partial_function (option) keepFolder :: "env \<Rightarrow> glob_expression \<Rightarrow> string \<Rightarrow> bool option" where
  "keepFolder e ex relativeFilePath =
     (if glob_match e ex relativeFilePath None then Some False
      else if paths_dirname e relativeFilePath = ''.'' then Some True
      else keepFolder e ex (paths_dirname e relativeFilePath))"

declare keepFolder.simps [code]

fun keptFolders :: "env \<Rightarrow> glob_expression \<Rightarrow> string \<Rightarrow> string list \<Rightarrow> string list option" where
  "keptFolders e ex absolutePath [] = Some []"
| "keptFolders e ex absolutePath (p # ps) =
     (case keepFolder e ex (toRelativeWithSlash e absolutePath p) of
        None \<Rightarrow> None
      | Some keep \<Rightarrow>
          (case keptFolders e ex absolutePath ps of
             None \<Rightarrow> None
           | Some rest \<Rightarrow> Some (if keep then p # rest else rest)))"

definition visitNativePath ::
  "env \<Rightarrow> string \<Rightarrow> (string \<times> string list) list \<Rightarrow> search \<Rightarrow> string \<Rightarrow> search" where
  "visitNativePath e absolutePath filenames s p =
     (if isLimitHit s then s
      else
        (let relativeFilePath = toRelativeWithSlash e absolutePath p;
             filename = paths_basename e p;
             siblings = (if cfg_filePattern (config s) = Some filename then Some []
                         else map_of filenames (paths_dirname e p))
         in if glob_match e (excludePattern s) relativeFilePath siblings then s
            else if isFilePatternMatch e s filename relativeFilePath \<and>
                    included e s relativeFilePath siblings
                 then reportMatch p s
                 else s))"

definition nativeClosed :: "env \<Rightarrow> string \<Rightarrow> nat list \<Rightarrow> search \<Rightarrow> search option" where
  "nativeClosed e absolutePath js s0 =
     (let s = s0\<lparr>runningNative := None\<rparr>
      in if isCanceled s then Some (callback js None s)
         else
           (let maps = foldl (perPathHandler e) ([], []) (nativeOutput e absolutePath)
            in case keptFolders e (excludePattern s) absolutePath (map fst (fst maps)) of
                 None \<Rightarrow> None
               | Some keptKeys \<Rightarrow>
                   Some (callback js None
                     (foldl (visitNativePath e absolutePath (snd maps)) s
                        (concat (map (\<lambda>folder. case map_of (fst maps) folder of
                                                  None \<Rightarrow> [] | Some ps \<Rightarrow> ps) keptKeys))))))"

section \<open>File walker: callbacks and schedules\<close>

text \<open>
  What the callback of a finished operation does. The answer of the file system is read
  when the callback runs. The result is \<open>None\<close> when the callback does not return (the
  loop of the native handler).
\<close>

fun fire :: "env \<Rightarrow> task \<Rightarrow> search \<Rightarrow> search option" where
  "fire e (StatFilePattern rootPaths) s =
     Some (walkRoots rootPaths
             (case stat_isDirectory e (the (filePattern s)) of
                Inl _ \<Rightarrow> False | Inr isDir \<Rightarrow> \<not> isDir) s)"
| "fire e (ReaddirRoot absolutePath js) s =
     Some (if isCanceled s \<or> isLimitHit s then callback js None s
           else
             (case readdir e absolutePath of
                Inr files \<Rightarrow>
                  (if \<not> truthy (filePattern s) \<or> paths_isAbsolute e (the (filePattern s)) \<or>
                      \<not> searchInPath s
                   then recurse e absolutePath files js s
                   else start (StatRelative absolutePath files js) s)
              | Inl code \<Rightarrow>
                  (if code = ''ENOTDIR'' \<and> \<not> isCanceled s \<and> \<not> isLimitHit s
                   then
                     (if glob_match e (excludePattern s) absolutePath None
                      then callback js None s
                      else callback js None
                             (if isFilePatternMatch e s (paths_basename e absolutePath)
                                   absolutePath \<and>
                                 included e s absolutePath None
                              then reportMatch absolutePath s else s))
                   else callback js None s)))"
| "fire e (StatRelative basePath files js) s =
     Some (let absolutePath = paths_join e basePath (the (filePattern s));
               s1 = (case stat_isDirectory e absolutePath of
                       Inl _ \<Rightarrow> s
                     | Inr isDir \<Rightarrow> if \<not> isDir then onResult absolutePath s else s)
           in recurse e basePath files js s1)"
| "fire e (ReaddirEntry currentPath relativeFilePath file js) s =
     Some (case readdir e currentPath of
             Inr children \<Rightarrow> start (Lstat currentPath relativeFilePath children js) s
           | Inl code \<Rightarrow>
               callback js None
                 (if code = ''ENOTDIR'' \<and> \<not> isCanceled s \<and> \<not> isLimitHit s \<and>
                     isFilePatternMatch e s file relativeFilePath \<and>
                     included e s relativeFilePath None
                  then reportMatch currentPath s else s))"
| "fire e (Lstat currentPath relativeFilePath children js) s =
     Some (case lstat_isSymbolicLink e currentPath of
             Inl _ \<Rightarrow> callback js None s
           | Inr isLink \<Rightarrow>
               if isLink then start (Realpath currentPath relativeFilePath children js) s
               else walkRealPath e currentPath relativeFilePath children js currentPath s)"
| "fire e (Realpath currentPath relativeFilePath children js) s =
     Some (case realpath e currentPath of
             Inl _ \<Rightarrow> callback js None s
           | Inr rp \<Rightarrow> walkRealPath e currentPath relativeFilePath children js rp s)"
| "fire e (NativeCommand absolutePath js) s = nativeClosed e absolutePath js s"

text \<open>
  A schedule is the order in which the environment lets things happen: the callback of
  the \<open>i\<close>-th operation in flight runs, or the owner of the search calls \<open>cancel\<close>. A
  callback runs to completion before the next event. \<open>run\<close> is \<open>None\<close> for a schedule
  that names an operation that is not in flight or that meets a callback that does not
  return.
\<close>

datatype event = Fire nat | Cancel


fun step :: "env \<Rightarrow> search \<Rightarrow> event \<Rightarrow> search option" where
  "step e s (Fire i) =
     (if i < length (pending s)
      then fire e (pending s ! i) (s\<lparr>pending := take i (pending s) @ drop (Suc i) (pending s)\<rparr>)
      else None)"
| "step e s Cancel = Some (cancel s)"

fun run :: "env \<Rightarrow> search \<Rightarrow> event list \<Rightarrow> search option" where
  "run e s [] = Some s"
| "run e s (ev # evs) = (case step e s ev of None \<Rightarrow> None | Some s' \<Rightarrow> run e s' evs)"

section \<open>File walker: notions used in the proofs\<close>

text \<open>The fields no callback of a join and no start of an operation touches.\<close>

definition core ::
  "search \<Rightarrow> raw_search \<times> string option \<times> glob_expression \<times> glob_expression option \<times> int option \<times>
     bool \<times> nat \<times> bool \<times> bool \<times> bool \<times> bool \<times> string list \<times> string list \<times> string list" where
  "core s = (config s, filePattern s, excludePattern s, includePattern s, maxResults s,
             isLimitHit s, resultCount s, isCanceled s, searchInPath s, matchFuzzy s,
             disableFastFileLookup s, walkedPaths s, emitted s, descended s)"

definition quietJoins :: "search \<Rightarrow> bool" where
  "quietJoins s = (\<forall>js j. joins s js = Some j \<longrightarrow> \<not> didErrorOccur j)"

text \<open>A change of the joins and of the calls of \<open>done\<close> only: every new call of \<open>done\<close>
  carries the current limit flag and, as long as no join holds an error, no error.\<close>

definition quiet :: "search \<Rightarrow> search \<Rightarrow> bool" where
  "quiet s s' =
     (core s' = core s \<and>
      (\<exists>ext. finished s' = finished s @ ext \<and>
         (\<forall>x \<in> set ext. snd x = isLimitHit s \<and> (quietJoins s \<longrightarrow> fst x = None))) \<and>
      (quietJoins s \<longrightarrow> quietJoins s'))"

text \<open>
  The changes a callback or a \<open>cancel\<close> is made of: a quiet change; a counted match,
  which happens only while the walker is neither cancelled nor at its limit; the report of
  a file the pattern names, which happens only for a pattern that is a path; the descent
  into a real path not walked before; a cancellation.
\<close>

definition pathPattern :: "env \<Rightarrow> search \<Rightarrow> bool" where
  "pathPattern e s =
     (truthy (filePattern s) \<and> (paths_isAbsolute e (the (filePattern s)) \<or> searchInPath s))"

inductive move :: "env \<Rightarrow> search \<Rightarrow> search \<Rightarrow> bool" for e where
  quietly: "quiet s s' \<Longrightarrow> move e s s'"
| report: "\<not> isLimitHit s \<Longrightarrow> \<not> isCanceled s \<Longrightarrow> move e s (reportMatch p s)"
| pattern: "pathPattern e s \<Longrightarrow> move e s (onResult p s)"
| descend: "rp \<notin> set (walkedPaths s) \<Longrightarrow>
            move e s (s\<lparr>walkedPaths := walkedPaths s @ [rp], descended := descended s @ [rp]\<rparr>)"
| cancelled: "move e s (cancel s)"

text \<open>What an operation in flight promises about the walker and the file system: the
  stats of the pattern are started for a pattern that is a path only, and a listing a task
  carries is the listing of its path.\<close>

fun taskOK :: "env \<Rightarrow> search \<Rightarrow> task \<Rightarrow> bool" where
  "taskOK e s (StatFilePattern rootPaths) = pathPattern e s"
| "taskOK e s (ReaddirRoot absolutePath js) = True"
| "taskOK e s (StatRelative basePath files js) =
     (pathPattern e s \<and> readdir e basePath = Inr files)"
| "taskOK e s (ReaddirEntry currentPath relativeFilePath file js) = True"
| "taskOK e s (Lstat currentPath relativeFilePath children js) =
     (readdir e currentPath = Inr children)"
| "taskOK e s (Realpath currentPath relativeFilePath children js) =
     (readdir e currentPath = Inr children \<and> lstat_isSymbolicLink e currentPath = Inr True)"
| "taskOK e s (NativeCommand absolutePath js) = (\<not> disableFastFileLookup s)"

definition tasksOK :: "env \<Rightarrow> search \<Rightarrow> bool" where
  "tasksOK e s = (\<forall>t \<in> set (pending s). taskOK e s t)"

text \<open>The operations a listing starts: one \<open>readdir\<close> per file at most.\<close>

definition entryOf :: "env \<Rightarrow> string \<Rightarrow> string \<Rightarrow> nat list \<Rightarrow> string list \<Rightarrow> task \<Rightarrow> bool" where
  "entryOf e a r js files t =
     (\<exists>f k. f \<in> set files \<and>
        t = ReaddirEntry (paths_join e a f) (trimSlashes (r @ ''/'' @ f)) f (k # js))"

text \<open>The fields of the walker that are set when it is created.\<close>

definition sameSetup :: "search \<Rightarrow> search \<Rightarrow> bool" where
  "sameSetup s s' =
     (config s' = config s \<and> filePattern s' = filePattern s \<and>
      excludePattern s' = excludePattern s \<and> includePattern s' = includePattern s \<and>
      maxResults s' = maxResults s \<and> searchInPath s' = searchInPath s \<and>
      matchFuzzy s' = matchFuzzy s \<and> disableFastFileLookup s' = disableFastFileLookup s)"

text \<open>The state \<open>walk\<close> starts from: the walker after \<open>resetState\<close>, with nothing in
  flight, no join, and nothing reported yet.\<close>

definition walkStart :: "search \<Rightarrow> search" where
  "walkStart w =
     (resetState w)\<lparr>pending := [], joins := (\<lambda>_. None), emitted := [], finished := [],
                     descended := []\<rparr>"






section \<open>File walker: a measure of the work left\<close>

text \<open>
  What the portable walk needs of a file system to end, and what a file system with
  symbolic-link cycles still provides. \<open>K\<close> holds the real paths symbolic links resolve
  to and is finite; a listing has at most \<open>b\<close> names; \<open>depth\<close> is at most \<open>D\<close> and
  decreases from a folder to each sub-folder that is not a symbolic link (the height of the
  folder in the tree of real folders). Textual paths through a cycle are not bounded:
  \<open>/r/loop/loop/...\<close> are all folders.
\<close>

definition realDir :: "env \<Rightarrow> string \<Rightarrow> bool" where
  "realDir e p =
     (lstat_isSymbolicLink e p = Inr False \<and>
      (case readdir e p of Inl _ \<Rightarrow> False | Inr _ \<Rightarrow> True))"


text \<open>The rank of a path while \<open>c\<close> real paths of \<open>K\<close> are still unwalked, the cost of the
  operations in flight, and the work left: the sum of their costs.\<close>

definition rank :: "env \<Rightarrow> (string \<Rightarrow> nat) \<Rightarrow> nat \<Rightarrow> nat \<Rightarrow> string \<Rightarrow> nat" where
  "rank e depth D c q = (2 * c + (if realDir e q then 1 else 0)) * (D + 1) + depth q"

definition entryCost :: "nat \<Rightarrow> nat \<Rightarrow> nat" where
  "entryCost b n = 3 * (b + 1) ^ n"

definition topRank :: "string set \<Rightarrow> nat \<Rightarrow> nat" where
  "topRank K D = (2 * card K + 1) * (D + 1) + D"

fun taskCost :: "env \<Rightarrow> (string \<Rightarrow> nat) \<Rightarrow> nat \<Rightarrow> nat \<Rightarrow> nat \<Rightarrow> nat \<Rightarrow> task \<Rightarrow> nat" where
  "taskCost e depth D b tp c (ReaddirEntry q rel f js) = entryCost b (rank e depth D c q)"
| "taskCost e depth D b tp c (Lstat q rel children js) = entryCost b (rank e depth D c q) - 1"
| "taskCost e depth D b tp c (Realpath q rel children js) = entryCost b (rank e depth D c q) - 2"
| "taskCost e depth D b tp c (NativeCommand a js) = 1"
| "taskCost e depth D b tp c (StatRelative base files js) = b * entryCost b tp + 2"
| "taskCost e depth D b tp c (ReaddirRoot a js) = b * entryCost b tp + 3"
| "taskCost e depth D b tp c (StatFilePattern roots) =
     length roots * (b * entryCost b tp + 3) + 1"

definition unwalked :: "string set \<Rightarrow> search \<Rightarrow> nat" where
  "unwalked K s = card (K - set (walkedPaths s))"

definition work :: "env \<Rightarrow> string set \<Rightarrow> (string \<Rightarrow> nat) \<Rightarrow> nat \<Rightarrow> nat \<Rightarrow> search \<Rightarrow> nat" where
  "work e K depth D b s =
     sum_list (map (taskCost e depth D b (topRank K D) (unwalked K s)) (pending s))"

section \<open>Concrete inputs of the file walker\<close>

text \<open>
  A small file system: the folder \<open>/proj\<close> holds the file \<open>a.ts\<close> and the folder \<open>sub\<close>,
  which holds the file \<open>b.ts\<close>; \<open>/f\<close> is a file; \<open>/locked\<close> cannot be read. A glob
  expression matches the paths it lists, and the fuzzy match is equality.
\<close>

definition fsDirs :: "(string \<times> string list) list" where
  "fsDirs = [(''/proj'', [''a.ts'', ''sub'']), (''/proj/sub'', [''b.ts''])]"

definition fsFiles :: "string list" where
  "fsFiles = [''/proj/a.ts'', ''/proj/sub/b.ts'', ''/f'']"

definition fsKind :: "string \<Rightarrow> error_code + bool" where
  "fsKind p =
     (if p \<in> set (map fst fsDirs) then Inr True
      else if p \<in> set fsFiles then Inr False
      else if p = ''/locked'' then Inl ''EACCES''
      else Inl ''ENOENT'')"

definition envA :: env where
  "envA =
     \<lparr>readdir = (\<lambda>p. case map_of fsDirs p of
                        Some names \<Rightarrow> Inr names
                      | None \<Rightarrow> if p \<in> set fsFiles then Inl ''ENOTDIR''
                                else if p = ''/locked'' then Inl ''EACCES'' else Inl ''ENOENT''),
      stat_isDirectory = fsKind,
      lstat_isSymbolicLink = (\<lambda>p. case fsKind p of Inl c \<Rightarrow> Inl c | Inr _ \<Rightarrow> Inr False),
      realpath = (\<lambda>p. case fsKind p of Inl c \<Rightarrow> Inl c | Inr _ \<Rightarrow> Inr p),
      glob_match = (\<lambda>g p siblings. p \<in> set g),
      matchesFuzzy = (\<lambda>pat target fuzzy. pat = target),
      paths_join = (\<lambda>a b. a @ ''/'' @ b),
      paths_basename = (\<lambda>p. rev (takeWhile (\<lambda>c. c \<noteq> CHR ''/'') (rev p))),
      paths_dirname = (\<lambda>p. rev (drop 1 (dropWhile (\<lambda>c. c \<noteq> CHR ''/'') (rev p)))),
      paths_isAbsolute = (\<lambda>p. take 1 p = ''/''),
      paths_sep = CHR ''/'',
      platform = ''linux'',
      normalizeNFC = (\<lambda>p. p),
      nativeOutput = (\<lambda>p. [])\<rparr>"

definition cfgOne :: raw_search where
  "cfgOne = \<lparr>cfg_rootPaths = [''/proj''], cfg_filePattern = None, cfg_excludePattern = [],
             cfg_includePattern = None, cfg_maxResults = Some 1, cfg_matchFuzzy = False,
             cfg_disableFastFileLookup = True\<rparr>"

definition cfgPattern :: raw_search where
  "cfgPattern = cfgOne\<lparr>cfg_filePattern := Some ''/proj/a.ts''\<rparr>"

text \<open>
  A file system with a cycle: the folder \<open>/r\<close> holds the symbolic link \<open>loop\<close>, which
  points to \<open>/r\<close>. Every path \<open>/r/loop/.../loop\<close> is a folder that lists \<open>loop\<close>.
\<close>

definition isLoopPath :: "string \<Rightarrow> bool" where
  "isLoopPath p = (\<exists>n \<in> set [0..<Suc (length p)]. p = ''/r'' @ concat (replicate n ''/loop''))"



section \<open>Properties of the service host\<close>

lemma getLanguageServices_keeps:
  "getLanguageServices (rt, h) calls = ((rt', h'), svcs) \<Longrightarrow>
     rt' = rt \<and> jsLanguageService h' = jsLanguageService h \<and> scriptKind h' = scriptKind h \<and>
     length svcs = length calls \<and> (\<forall>svc \<in> set svcs. svc = jsLanguageService h)"
proof (induction calls arbitrary: h h' svcs)
  case Nil
  then show ?case by simp
next
  case (Cons c calls)
  obtain d ws where c: "c = (d, ws)" by (cases c)
  obtain st'' svcs' where
    r: "getLanguageServices (rt, h\<lparr>currentTextDocument := d, currentWorkspace := Some ws\<rparr>) calls
          = (st'', svcs')"
    by (cases "getLanguageServices
                 (rt, h\<lparr>currentTextDocument := d, currentWorkspace := Some ws\<rparr>) calls")
  from Cons.prems c r have e: "st'' = (rt', h')" "svcs = jsLanguageService h # svcs'"
    by (auto simp: getLanguageService_def)
  from Cons.IH[OF r[unfolded e(1)]] e show ?case by simp
qed

lemma getLanguageServices_last:
  "getLanguageServices (rt, h) calls = ((rt', h'), svcs) \<Longrightarrow> calls \<noteq> [] \<Longrightarrow>
     currentTextDocument h' = fst (last calls) \<and> currentWorkspace h' = Some (snd (last calls))"
proof (induction calls arbitrary: h h' svcs)
  case Nil
  then show ?case by simp
next
  case (Cons c calls)
  obtain d ws where c: "c = (d, ws)" by (cases c)
  obtain st'' svcs' where
    r: "getLanguageServices (rt, h\<lparr>currentTextDocument := d, currentWorkspace := Some ws\<rparr>) calls
          = (st'', svcs')"
    by (cases "getLanguageServices
                 (rt, h\<lparr>currentTextDocument := d, currentWorkspace := Some ws\<rparr>) calls")
  from Cons.prems c r have e: "st'' = (rt', h')" "svcs = jsLanguageService h # svcs'"
    by (auto simp: getLanguageService_def)
  show ?case
  proof (cases "calls = []")
    case True
    with r e c show ?thesis by auto
  next
    case False
    from Cons.IH[OF r[unfolded e(1)] False] False show ?thesis by simp
  qed
qed

text \<open>
  C5. A host is created with one import of the library and one language service. Whatever
  sequence of \<open>getLanguageService\<close> calls follows, the runtime's counters stay where the
  creation left them, every call returns the handle the host was created with, and after
  the calls the host's current document and workspace are the arguments of the last call,
  which is what the engine reads back through \<open>getScriptFileNames\<close>.
\<close>

theorem C5_one_engine_last_document_wins:
  assumes "getLanguageServiceHost rt kind = (rt0, h0)"
    and "getLanguageServices (rt0, h0) calls = ((rt1, h1), svcs)"
  shows "libraryLoads rt1 = libraryLoads rt + 1 \<and> servicesCreated rt1 = servicesCreated rt + 1 \<and>
         length svcs = length calls \<and> (\<forall>svc \<in> set svcs. svc = jsLanguageService h0) \<and>
         jsLanguageService h1 = jsLanguageService h0 \<and>
         (calls \<noteq> [] \<longrightarrow>
            currentTextDocument h1 = fst (last calls) \<and>
            currentWorkspace h1 = Some (snd (last calls)) \<and>
            getScriptFileNames np h1 = [deschemeURI np (uri (fst (last calls))), ''jquery''])"
proof -
  from assms(1) have rt0:
    "libraryLoads rt0 = libraryLoads rt + 1" "servicesCreated rt0 = servicesCreated rt + 1"
    by (auto simp: getLanguageServiceHost_def)
  from getLanguageServices_keeps[OF assms(2)] getLanguageServices_last[OF assms(2)] rt0
  show ?thesis by (simp add: getScriptFileNames_def)
qed

theorem C5_witness:
  "getLanguageServiceHost rtZero ''JS'' =
     (\<lparr>libraryLoads = 1, servicesCreated = 1\<rparr>, snd (getLanguageServiceHost rtZero ''JS'')) \<and>
   getLanguageServices
       (\<lparr>libraryLoads = 1, servicesCreated = 1\<rparr>, snd (getLanguageServiceHost rtZero ''JS''))
       [(docA, wsEmpty), (docB, wsEmpty)] =
     ((\<lparr>libraryLoads = 1, servicesCreated = 1\<rparr>,
       (snd (getLanguageServiceHost rtZero ''JS''))
          \<lparr>currentTextDocument := docB, currentWorkspace := Some wsEmpty\<rparr>), [0, 0]) \<and>
   getScriptFileNames posix
     ((snd (getLanguageServiceHost rtZero ''JS''))
        \<lparr>currentTextDocument := docB, currentWorkspace := Some wsEmpty\<rparr>) =
     [''/proj/b.html'', ''jquery'']"
proof -
  have h1: "getLanguageServiceHost rtZero ''JS'' =
     (\<lparr>libraryLoads = 1, servicesCreated = 1\<rparr>, snd (getLanguageServiceHost rtZero ''JS''))"
    by (simp add: getLanguageServiceHost_def rtZero_def)
  have h2: "getLanguageServices
       (\<lparr>libraryLoads = 1, servicesCreated = 1\<rparr>, snd (getLanguageServiceHost rtZero ''JS''))
       [(docA, wsEmpty), (docB, wsEmpty)] =
     ((\<lparr>libraryLoads = 1, servicesCreated = 1\<rparr>,
       (snd (getLanguageServiceHost rtZero ''JS''))
          \<lparr>currentTextDocument := docB, currentWorkspace := Some wsEmpty\<rparr>), [0, 0])"
    by (simp add: getLanguageService_def getLanguageServiceHost_def rtZero_def)
  have d: "deschemeURI posix (uri docB) = ''/proj/b.html''"
    by (simp add: deschemeURI_def posix_def docB_def)
  from C5_one_engine_last_document_wins[OF h1 h2, of posix] h1 h2 d show ?thesis
    by simp
qed

section \<open>Properties of the mode's operations\<close>

text \<open>
  C10. Every location \<open>findDefinition\<close> and \<open>findReferences\<close> return carries the uri of
  the queried document. \<open>findDefinition\<close> keeps exactly the engine's entries whose file
  name is the embedded document's uri, \<open>findReferences\<close> exactly those whose file name is
  the de-schemed path; the ranges returned are those of the kept entries, in order.
\<close>

theorem C10_only_locations_of_the_document:
  "(case snd (findDefinition m st document pos) of
      None \<Rightarrow> True
    | Some locs \<Rightarrow>
        (\<forall>l \<in> set locs. loc_uri l = uri document) \<and>
        (\<exists>ds. getDefinitionAtPosition (service m) (jsDocuments m document)
                 (deschemeURI (paths m) (uri (jsDocuments m document)))
                 (offsetAt (jsDocuments m document) pos) = Some ds \<and>
              map loc_range locs =
                map (\<lambda>d. convertRange (jsDocuments m document) (textSpan d))
                    (filter (\<lambda>d. fileName d = uri (jsDocuments m document)) ds))) \<and>
   (\<forall>l \<in> set (snd (findReferences m st document pos)). loc_uri l = uri document) \<and>
   map loc_range (snd (findReferences m st document pos)) =
     (case getReferencesAtPosition (service m) (jsDocuments m document)
             (deschemeURI (paths m) (uri (jsDocuments m document)))
             (offsetAt (jsDocuments m document) pos) of
        None \<Rightarrow> []
      | Some ds \<Rightarrow>
          map (\<lambda>d. convertRange (jsDocuments m document) (textSpan d))
              (filter (\<lambda>d. fileName d = deschemeURI (paths m) (uri (jsDocuments m document)))
                 ds))"
  by (cases st)
     (auto simp: findDefinition_def findReferences_def getLanguageService_def Let_def comp_def
           split: option.splits)

lemma posA:
  "positionAt docA 4 = \<lparr>line = 0, character = 4\<rparr>"
  "positionAt docA 5 = \<lparr>line = 0, character = 5\<rparr>"
  by (simp_all add: positionAt_def docA_def getLineOffsets_def Let_def)

theorem C10_witness:
  "snd (findDefinition modeA hostA docA \<lparr>line = 0, character = 4\<rparr>) =
     Some [\<lparr>loc_uri = ''file:///proj/a.html'',
            loc_range = \<lparr>range_start = \<lparr>line = 0, character = 4\<rparr>,
                         range_end = \<lparr>line = 0, character = 5\<rparr>\<rparr>\<rparr>] \<and>
   snd (findReferences modeA hostA docA \<lparr>line = 0, character = 4\<rparr>) =
     [\<lparr>loc_uri = ''file:///proj/a.html'',
       loc_range = \<lparr>range_start = \<lparr>line = 0, character = 4\<rparr>,
                    range_end = \<lparr>line = 0, character = 5\<rparr>\<rparr>\<rparr>] \<and>
   uri docA = ''file:///proj/a.html''"
proof -
  have d: "deschemeURI posix ''file:///proj/a.html'' = ''/proj/a.html''"
    by (simp add: deschemeURI_def posix_def)
  have u: "uri docA = ''file:///proj/a.html''" by (simp add: docA_def)
  have 1: "snd (findDefinition modeA hostA docA \<lparr>line = 0, character = 4\<rparr>) =
     Some [\<lparr>loc_uri = ''file:///proj/a.html'',
            loc_range = \<lparr>range_start = \<lparr>line = 0, character = 4\<rparr>,
                         range_end = \<lparr>line = 0, character = 5\<rparr>\<rparr>\<rparr>]"
    by (simp add: findDefinition_def modeA_def engineA_def hostA_def getLanguageService_def
        getLanguageServiceHost_def Let_def convertRange_def posA u split: prod.splits)
  have 2: "snd (findReferences modeA hostA docA \<lparr>line = 0, character = 4\<rparr>) =
     [\<lparr>loc_uri = ''file:///proj/a.html'',
       loc_range = \<lparr>range_start = \<lparr>line = 0, character = 4\<rparr>,
                    range_end = \<lparr>line = 0, character = 5\<rparr>\<rparr>\<rparr>]"
    by (simp add: findReferences_def modeA_def engineA_def hostA_def getLanguageService_def
        getLanguageServiceHost_def Let_def convertRange_def posA u d split: prod.splits)
  from C10_only_locations_of_the_document[where m = modeA and st = hostA and document = docA
      and pos = "\<lparr>line = 0, character = 4\<rparr>"] 1 2 u
  show ?thesis by simp
qed





section \<open>Properties of the document symbols\<close>






lemma symbolItems_Nil [simp]: "symbolItems [] = []"
  by (simp add: symbolItems_def)











section \<open>Properties of the range conversion\<close>





section \<open>File walker: joins and quiet changes\<close>

lemma quiet_refl [simp]: "quiet s s"
  by (simp add: quiet_def)

lemma quiet_trans: "quiet s m \<Longrightarrow> quiet m s' \<Longrightarrow> quiet s s'"
proof -
  assume a: "quiet s m" and b: "quiet m s'"
  from a obtain e1 where e1: "core m = core s" "finished m = finished s @ e1"
      "\<forall>x \<in> set e1. snd x = isLimitHit s \<and> (quietJoins s \<longrightarrow> fst x = None)"
      "quietJoins s \<longrightarrow> quietJoins m"
    by (auto simp: quiet_def)
  from b obtain e2 where e2: "core s' = core m" "finished s' = finished m @ e2"
      "\<forall>x \<in> set e2. snd x = isLimitHit m \<and> (quietJoins m \<longrightarrow> fst x = None)"
      "quietJoins m \<longrightarrow> quietJoins s'"
    by (auto simp: quiet_def)
  from e1(1) have l: "isLimitHit m = isLimitHit s" by (simp add: core_def)
  have "finished s' = finished s @ (e1 @ e2)" using e1(2) e2(2) by simp
  moreover have "\<forall>x \<in> set (e1 @ e2). snd x = isLimitHit s \<and> (quietJoins s \<longrightarrow> fst x = None)"
    using e1(3,4) e2(3) l by auto
  ultimately show ?thesis unfolding quiet_def using e1(1,4) e2(1,4) by metis
qed

lemma quiet_fields:
  assumes "quiet s s'"
  shows "config s' = config s" "filePattern s' = filePattern s" "excludePattern s' = excludePattern s"
    "includePattern s' = includePattern s" "maxResults s' = maxResults s"
    "isLimitHit s' = isLimitHit s" "resultCount s' = resultCount s" "isCanceled s' = isCanceled s"
    "searchInPath s' = searchInPath s" "matchFuzzy s' = matchFuzzy s"
    "disableFastFileLookup s' = disableFastFileLookup s" "walkedPaths s' = walkedPaths s"
    "emitted s' = emitted s" "descended s' = descended s"
  using assms by (simp_all add: quiet_def core_def)

lemma callback_pending [simp]: "pending (callback js err s) = pending s"
proof (induction js err s rule: callback.induct)
  case (1 err s)
  then show ?case by simp
next
  case (2 i js err s)
  show ?case
  proof (cases "joins s js")
    case None
    then show ?thesis by simp
  next
    case (Some j)
    show ?thesis
    proof (cases js)
      case Nil
      with Some show ?thesis by (simp add: Let_def onDone_def)
    next
      case (Cons k ks)
      with Some 2 show ?thesis by (simp add: Let_def)
    qed
  qed
qed

lemma callback_unfold:
  fixes i err
  assumes "joins s js = Some j"
  defines "j' \<equiv> \<lparr>errors = (errors j)[i := err],
               didErrorOccur = (didErrorOccur j \<or> err \<noteq> None), doneCount = doneCount j + 1\<rparr>"
  defines "m \<equiv> s\<lparr>joins := (joins s)(js \<mapsto> j')\<rparr>"
  shows "callback (i # js) err s = m \<or>
         (js = [] \<and> (\<exists>x. callback (i # js) err s = onDone x m \<and> (\<not> didErrorOccur j' \<longrightarrow> x = None))) \<or>
         (js \<noteq> [] \<and> (\<exists>x. callback (i # js) err s = callback js x m \<and> (\<not> didErrorOccur j' \<longrightarrow> x = None)))"
proof -
  have u: "callback (i # js) err s =
      (if doneCount j' = length (errors j')
       then (case js of
               [] \<Rightarrow> onDone (if didErrorOccur j' then (case errors j' of [] \<Rightarrow> None | e # _ \<Rightarrow> e) else None) m
             | _ # _ \<Rightarrow> callback js (if didErrorOccur j'
                           then (case filter (\<lambda>e. e \<noteq> None) (errors j') of [] \<Rightarrow> None | e # _ \<Rightarrow> e)
                           else None) m)
       else m)"
    using assms(1) unfolding j'_def m_def by (simp only: callback.simps(2) option.simps Let_def)
  show ?thesis unfolding u by (cases js) (auto simp del: callback.simps)
qed

lemma callback_effect:
  "core (callback js err s) = core s \<and>
   (\<exists>ext. finished (callback js err s) = finished s @ ext \<and> (\<forall>x \<in> set ext. snd x = isLimitHit s))"
proof (induction js arbitrary: err s)
  case Nil
  then show ?case by simp
next
  case (Cons i js)
  show ?case
  proof (cases "joins s js")
    case None
    then show ?thesis by simp
  next
    case (Some j)
    define m where "m = s\<lparr>joins := (joins s)(js \<mapsto> \<lparr>errors = (errors j)[i := err],
               didErrorOccur = (didErrorOccur j \<or> err \<noteq> None), doneCount = doneCount j + 1\<rparr>)\<rparr>"
    have cm: "core m = core s" "finished m = finished s" "isLimitHit m = isLimitHit s"
      by (simp_all add: m_def core_def)
    from callback_unfold[OF Some, of i err, folded m_def]
    consider "callback (i # js) err s = m"
      | x where "callback (i # js) err s = onDone x m"
      | x where "callback (i # js) err s = callback js x m"
      by blast
    then show ?thesis
    proof cases
      case 1
      with cm show ?thesis by simp
    next
      case 2
      with cm show ?thesis by (simp add: onDone_def core_def)
    next
      case 3
      with Cons.IH[of x m] cm show ?thesis by simp
    qed
  qed
qed

lemma callback_quietJoins:
  "quietJoins s \<Longrightarrow>
   quietJoins (callback js None s) \<and>
   (\<exists>ext. finished (callback js None s) = finished s @ ext \<and> (\<forall>x \<in> set ext. fst x = None))"
proof (induction js arbitrary: s)
  case Nil
  then show ?case by simp
next
  case (Cons i js)
  show ?case
  proof (cases "joins s js")
    case None
    with Cons.prems show ?thesis by simp
  next
    case (Some j)
    define m where "m = s\<lparr>joins := (joins s)(js \<mapsto> \<lparr>errors = (errors j)[i := None],
               didErrorOccur = (didErrorOccur j \<or> None \<noteq> (None :: error_code option)), doneCount = doneCount j + 1\<rparr>)\<rparr>"
    from Cons.prems Some have nd: "\<not> didErrorOccur j" by (auto simp: quietJoins_def)
    have qm: "quietJoins m" "finished m = finished s"
      using Cons.prems nd by (auto simp: m_def quietJoins_def)
    from callback_unfold[OF Some, of i None, folded m_def] nd
    consider "callback (i # js) None s = m"
      | "callback (i # js) None s = onDone None m"
      | "callback (i # js) None s = callback js None m"
      by auto
    then show ?thesis
    proof cases
      case 1
      with qm show ?thesis by simp
    next
      case 2
      with qm show ?thesis by (auto simp: onDone_def quietJoins_def)
    next
      case 3
      with Cons.IH[OF qm(1)] qm(2) show ?thesis by simp
    qed
  qed
qed

lemma quiet_callback: "quiet s (callback js None s)"
proof (cases "quietJoins s")
  case True
  from callback_effect[of js None s] obtain ext where
    e: "core (callback js None s) = core s" "finished (callback js None s) = finished s @ ext"
       "\<forall>x \<in> set ext. snd x = isLimitHit s"
    by blast
  from callback_quietJoins[OF True, of js] obtain ext' where
    e': "quietJoins (callback js None s)" "finished (callback js None s) = finished s @ ext'"
       "\<forall>x \<in> set ext'. fst x = None"
    by blast
  from e(2) e'(2) have "ext' = ext" by simp
  with e e' show ?thesis unfolding quiet_def by blast
next
  case False
  with callback_effect[of js None s] show ?thesis unfolding quiet_def by blast
qed

declare callback.simps [simp del]

lemma quiet_start [simp]: "quiet s (start t s)"
  by (simp add: quiet_def start_def core_def quietJoins_def)

lemma quiet_startJoin [simp]: "quiet s (startJoin js n s)"
  by (simp add: quiet_def startJoin_def core_def quietJoins_def)

lemma quiet_onDone [simp]: "quiet s (onDone None s)"
  by (simp add: quiet_def onDone_def core_def quietJoins_def)

lemma quiet_runningNative [simp]: "quiet s (s\<lparr>runningNative := x\<rparr>)"
  by (simp add: quiet_def core_def quietJoins_def)

lemma quiet_pending [simp]: "quiet s (s\<lparr>pending := x\<rparr>)"
  by (simp add: quiet_def core_def quietJoins_def)

lemma quiet_then: "quiet s m \<Longrightarrow> quiet s (callback js None m)"
  by (rule quiet_trans[OF _ quiet_callback])

lemma quiet_visitEntry: "quiet s (visitEntry e a r files js i f s)"
  by (simp add: visitEntry_def Let_def quiet_callback)

lemma quiet_visitEntries: "quiet s (visitEntries e a r files js i rest s)"
proof (induction rest arbitrary: i s)
  case Nil
  then show ?case by simp
next
  case (Cons f rest)
  from quiet_trans[OF quiet_visitEntry Cons.IH] show ?case by simp
qed

lemma quiet_recurseWithNodeJS: "quiet s (recurseWithNodeJS e a r files js s)"
  unfolding recurseWithNodeJS_def
  by (auto intro: quiet_callback quiet_trans[OF quiet_startJoin quiet_visitEntries])

lemma quiet_recurseWithNativeCommand: "quiet s (recurseWithNativeCommand a js s)"
  unfolding recurseWithNativeCommand_def
  by (rule quiet_trans[OF quiet_runningNative quiet_start])

lemma quiet_recurse: "quiet s (recurse e a files js s)"
  by (simp add: recurse_def quiet_recurseWithNodeJS quiet_recurseWithNativeCommand)

lemma quiet_startRoots: "quiet s (startRoots i roots s)"
proof (induction roots arbitrary: i s)
  case Nil
  then show ?case by simp
next
  case (Cons p roots)
  from quiet_trans[OF quiet_start Cons.IH] show ?case by simp
qed

lemma quiet_terminateNative [simp]: "quiet s (terminateNative s)"
  by (simp add: terminateNative_def split: option.splits)

text \<open>Operations started.\<close>

lemma pending_start [simp]: "pending (start t s) = pending s @ [t]"
  by (simp add: start_def)

lemma pending_startJoin [simp]: "pending (startJoin js n s) = pending s"
  by (simp add: startJoin_def)

lemma pending_onDone [simp]: "pending (onDone x s) = pending s"
  by (simp add: onDone_def)

lemma pending_onResult [simp]: "pending (onResult p s) = pending s"
  by (simp add: onResult_def)

lemma pending_reportMatch [simp]: "pending (reportMatch p s) = pending s"
  by (simp add: reportMatch_def Let_def onResult_def)

lemma pending_visitEntries:
  "\<exists>new. pending (visitEntries e a r files js i rest s) = pending s @ new \<and>
         length new \<le> length rest \<and> (\<forall>t \<in> set new. entryOf e a r js rest t)"
proof (induction rest arbitrary: i s)
  case Nil
  then show ?case by simp
next
  case (Cons f rest)
  let ?m = "visitEntry e a r files js i f s"
  have m: "pending ?m = pending s \<or>
           pending ?m = pending s @ [ReaddirEntry (paths_join e a f) (trimSlashes (r @ ''/'' @ f)) f (i # js)]"
    by (simp add: visitEntry_def Let_def)
  from Cons.IH[of "Suc i" ?m] obtain new where
    n: "pending (visitEntries e a r files js (Suc i) rest ?m) = pending ?m @ new"
       "length new \<le> length rest" "\<forall>t \<in> set new. entryOf e a r js rest t"
    by blast
  have mono: "entryOf e a r js rest t \<Longrightarrow> entryOf e a r js (f # rest) t" for t
    by (auto simp: entryOf_def)
  from m show ?case
  proof
    assume "pending ?m = pending s"
    with n mono show ?thesis by (intro exI[of _ new]) auto
  next
    assume a: "pending ?m = pending s @ [ReaddirEntry (paths_join e a f) (trimSlashes (r @ ''/'' @ f)) f (i # js)]"
    have "entryOf e a r js (f # rest) (ReaddirEntry (paths_join e a f) (trimSlashes (r @ ''/'' @ f)) f (i # js))"
      by (auto simp: entryOf_def)
    with a n mono show ?thesis
      by (intro exI[of _ "ReaddirEntry (paths_join e a f) (trimSlashes (r @ ''/'' @ f)) f (i # js) # new"]) auto
  qed
qed

lemma pending_recurseWithNodeJS:
  "\<exists>new. pending (recurseWithNodeJS e a r files js s) = pending s @ new \<and>
         length new \<le> length files \<and> (\<forall>t \<in> set new. entryOf e a r js files t)"
proof (cases "files = []")
  case True
  then show ?thesis by (simp add: recurseWithNodeJS_def)
next
  case False
  from pending_visitEntries[of e a r files js 0 files "startJoin js (length files) s"] False
  show ?thesis by (simp add: recurseWithNodeJS_def)
qed

lemma pending_startRoots:
  "\<exists>new. pending (startRoots i roots s) = pending s @ new \<and> length new = length roots \<and>
         (\<forall>t \<in> set new. \<exists>p js. t = ReaddirRoot p js)"
proof (induction roots arbitrary: i s)
  case Nil
  then show ?case by simp
next
  case (Cons p roots)
  from Cons.IH[of "Suc i" "start (ReaddirRoot p [i]) s"] obtain new where
    n: "pending (startRoots (Suc i) roots (start (ReaddirRoot p [i]) s)) = pending s @ ReaddirRoot p [i] # new"
       "length new = length roots" "\<forall>t \<in> set new. \<exists>p js. t = ReaddirRoot p js"
    by auto
  then show ?case by (intro exI[of _ "ReaddirRoot p [i] # new"]) auto
qed

section \<open>File walker: every callback is a sequence of moves\<close>

lemma mv_quiet: "quiet s s' \<Longrightarrow> (move e)\<^sup>*\<^sup>* s s'"
  by (rule r_into_rtranclp) (rule move.quietly)

lemma mv_then_quiet:
  assumes "(move e)\<^sup>*\<^sup>* s m" and "quiet m s'"
  shows "(move e)\<^sup>*\<^sup>* s s'"
proof -
  from assms(2) have "move e m s'" by (rule move.quietly)
  with assms(1) show ?thesis by (rule rtranclp.rtrancl_into_rtrancl)
qed

lemma reportMatch_fields [simp]:
  "isCanceled (reportMatch p s) = isCanceled s"
  "config (reportMatch p s) = config s"
  "filePattern (reportMatch p s) = filePattern s"
  "excludePattern (reportMatch p s) = excludePattern s"
  "includePattern (reportMatch p s) = includePattern s"
  "maxResults (reportMatch p s) = maxResults s"
  "searchInPath (reportMatch p s) = searchInPath s"
  "matchFuzzy (reportMatch p s) = matchFuzzy s"
  "disableFastFileLookup (reportMatch p s) = disableFastFileLookup s"
  "walkedPaths (reportMatch p s) = walkedPaths s"
  "descended (reportMatch p s) = descended s"
  "joins (reportMatch p s) = joins s"
  "finished (reportMatch p s) = finished s"
  "runningNative (reportMatch p s) = runningNative s"
  by (simp_all add: reportMatch_def Let_def onResult_def)

lemma mv_report:
  "\<not> isLimitHit s \<Longrightarrow> \<not> isCanceled s \<Longrightarrow> (move e)\<^sup>*\<^sup>* s (reportMatch p s)"
  by (rule r_into_rtranclp) (rule move.report)

lemma mv_callback: "(move e)\<^sup>*\<^sup>* s (callback js None s)"
  by (rule mv_quiet) (rule quiet_callback)

lemma mv_start: "(move e)\<^sup>*\<^sup>* s (start t s)"
  by (rule mv_quiet) simp

lemma mv_recurse: "(move e)\<^sup>*\<^sup>* s (recurse e a files js s)"
  by (rule mv_quiet) (rule quiet_recurse)

lemma mv_report_callback:
  "\<not> isLimitHit s \<Longrightarrow> \<not> isCanceled s \<Longrightarrow>
   (move e)\<^sup>*\<^sup>* s (callback js None (reportMatch p s))"
  by (rule mv_then_quiet[OF mv_report quiet_callback])

lemma mv_walkRoots:
  "pathPattern e s \<or> \<not> ex \<Longrightarrow> (move e)\<^sup>*\<^sup>* s (walkRoots roots ex s)"
proof -
  assume a: "pathPattern e s \<or> \<not> ex"
  define s1 where "s1 = (if ex then onResult (the (filePattern s)) s else s)"
  have 1: "(move e)\<^sup>*\<^sup>* s s1"
    using a unfolding s1_def by (auto intro: r_into_rtranclp move.pattern)
  have 2: "quiet s1 (walkRoots roots ex s)"
    unfolding walkRoots_def s1_def[symmetric] Let_def
    by (auto intro: quiet_trans[OF quiet_startJoin quiet_startRoots])
  from mv_then_quiet[OF 1 2] show ?thesis .
qed

lemma mv_walkRealPath: "(move e)\<^sup>*\<^sup>* s (walkRealPath e cp rel children js rp s)"
proof (cases "rp \<in> set (walkedPaths s)")
  case True
  then show ?thesis by (simp add: walkRealPath_def mv_quiet quiet_callback)
next
  case False
  let ?m = "s\<lparr>walkedPaths := walkedPaths s @ [rp], descended := descended s @ [rp]\<rparr>"
  have "(move e)\<^sup>*\<^sup>* s ?m" using False by (intro r_into_rtranclp move.descend)
  from mv_then_quiet[OF this quiet_recurseWithNodeJS] False show ?thesis
    by (simp add: walkRealPath_def)
qed

lemma mv_visitNative:
  "\<not> isCanceled s \<Longrightarrow>
   (move e)\<^sup>*\<^sup>* s (visitNativePath e a names s p) \<and> \<not> isCanceled (visitNativePath e a names s p)"
  by (auto simp: visitNativePath_def Let_def intro: mv_report)

lemma mv_visitNatives:
  "\<not> isCanceled s \<Longrightarrow> (move e)\<^sup>*\<^sup>* s (foldl (visitNativePath e a names) s ps)"
proof (induction ps arbitrary: s)
  case Nil
  then show ?case by simp
next
  case (Cons p ps)
  from mv_visitNative[OF Cons.prems, of e a names p] Cons.IH[of "visitNativePath e a names s p"]
  show ?case by (auto intro: rtranclp_trans)
qed

lemma fire_moves:
  assumes "taskOK e s t" and "fire e t s = Some s'"
  shows "(move e)\<^sup>*\<^sup>* s s'"
proof (cases t)
  case (StatFilePattern roots)
  with assms show ?thesis by (auto intro: mv_walkRoots)
next
  case (ReaddirRoot a js)
  with assms(2) show ?thesis
    by (auto simp: mv_callback mv_recurse mv_start mv_report_callback split: sum.splits if_splits)
next
  case (StatRelative base files js)
  let ?p = "paths_join e base (the (filePattern s))"
  from StatRelative assms(1) have pp: "pathPattern e s" by simp
  have "(move e)\<^sup>*\<^sup>* s (onResult ?p s)" using pp by (intro r_into_rtranclp move.pattern)
  from mv_then_quiet[OF this quiet_recurse] StatRelative assms(2) show ?thesis
    by (auto simp: Let_def mv_recurse split: sum.splits if_splits)
next
  case (ReaddirEntry cp rel f js)
  with assms(2) show ?thesis
    by (auto simp: mv_callback mv_start mv_report_callback split: sum.splits if_splits)
next
  case (Lstat cp rel children js)
  with assms(2) show ?thesis
    by (auto simp: mv_callback mv_start mv_walkRealPath split: sum.splits if_splits)
next
  case (Realpath cp rel children js)
  with assms(2) show ?thesis
    by (auto simp: mv_callback mv_start mv_walkRealPath split: sum.splits if_splits)
next
  case (NativeCommand a js)
  let ?s = "s\<lparr>runningNative := None\<rparr>"
  have q: "(move e)\<^sup>*\<^sup>* s ?s" by (rule mv_quiet) simp
  show ?thesis
  proof (cases "isCanceled s")
    case True
    with NativeCommand assms(2) have "s' = callback js None ?s"
      by (simp add: nativeClosed_def Let_def)
    with mv_then_quiet[OF q quiet_callback] show ?thesis by simp
  next
    case False
    with NativeCommand assms(2) obtain ps where
      "s' = callback js None (foldl (visitNativePath e a (snd (foldl (perPathHandler e) ([], []) (nativeOutput e a)))) ?s ps)"
      by (auto simp: nativeClosed_def Let_def split: option.splits)
    moreover have "(move e)\<^sup>*\<^sup>* ?s (foldl (visitNativePath e a (snd (foldl (perPathHandler e) ([], []) (nativeOutput e a)))) ?s ps)"
      using False by (intro mv_visitNatives) simp
    ultimately show ?thesis using q by (auto intro: mv_then_quiet[OF _ quiet_callback] rtranclp_trans)
  qed
qed

section \<open>File walker: operations in flight\<close>

lemma move_sameSetup: "move e s s' \<Longrightarrow> sameSetup s s'"
  by (induction rule: move.induct)
     (auto simp: sameSetup_def quiet_def core_def onResult_def cancel_def terminateNative_def
           split: option.splits)

lemma moves_sameSetup: "(move e)\<^sup>*\<^sup>* s s' \<Longrightarrow> sameSetup s s'"
  by (induction rule: rtranclp_induct) (auto dest: move_sameSetup simp: sameSetup_def)

lemma taskOK_sameSetup: "sameSetup s s' \<Longrightarrow> taskOK e s' t = taskOK e s t"
  by (cases t) (auto simp: sameSetup_def pathPattern_def)

lemma pending_recurse:
  "\<exists>new. pending (recurse e a files js s) = pending s @ new \<and>
         (\<forall>t \<in> set new. entryOf e a '''' js files t \<or>
                          (t = NativeCommand a js \<and> \<not> disableFastFileLookup s))"
proof (cases "disableFastFileLookup s")
  case True
  from pending_recurseWithNodeJS[of e a "''''" files js s] True show ?thesis
    by (auto simp: recurse_def)
next
  case False
  then show ?thesis by (simp add: recurse_def recurseWithNativeCommand_def)
qed

lemma pending_walkRoots:
  "\<exists>new. pending (walkRoots roots ex s) = pending s @ new \<and> length new \<le> length roots \<and>
         (\<forall>t \<in> set new. \<exists>p js. t = ReaddirRoot p js)"
proof (cases "roots = []")
  case True
  then show ?thesis by (simp add: walkRoots_def Let_def)
next
  case False
  from pending_startRoots[of 0 roots "startJoin [] (length roots) (if ex then onResult (the (filePattern s)) s else s)"]
  obtain new where "pending (startRoots 0 roots (startJoin [] (length roots) (if ex then onResult (the (filePattern s)) s else s))) = pending s @ new"
    "length new = length roots" "\<forall>t \<in> set new. \<exists>p js. t = ReaddirRoot p js"
    by auto
  with False show ?thesis by (auto simp: walkRoots_def Let_def)
qed

lemma pending_walkRealPath:
  "\<exists>new. pending (walkRealPath e cp rel children js rp s) = pending s @ new \<and>
         length new \<le> length children \<and> (\<forall>t \<in> set new. entryOf e cp rel js children t) \<and>
         (rp \<in> set (walkedPaths s) \<longrightarrow> new = [])"
proof (cases "rp \<in> set (walkedPaths s)")
  case True
  then show ?thesis by (simp add: walkRealPath_def)
next
  case False
  from pending_recurseWithNodeJS[of e cp rel children js "s\<lparr>walkedPaths := walkedPaths s @ [rp], descended := descended s @ [rp]\<rparr>"]
    False show ?thesis by (auto simp: walkRealPath_def)
qed

lemma entryOf_OK: "entryOf e a r js files t \<Longrightarrow> taskOK e s t"
  by (auto simp: entryOf_def)

lemma pending_nativeClosed:
  "nativeClosed e a js s = Some s' \<Longrightarrow> pending s' = pending s"
proof -
  have f: "pending (foldl (visitNativePath e a names) m ps) = pending m" for names m ps
    by (induction ps arbitrary: m) (auto simp: visitNativePath_def Let_def)
  assume "nativeClosed e a js s = Some s'"
  then show ?thesis
    by (auto simp: nativeClosed_def Let_def f split: if_splits option.splits)
qed

lemma fire_newTasks:
  assumes "taskOK e s t" and "fire e t s = Some s'"
  shows "\<exists>new. pending s' = pending s @ new \<and> (\<forall>u \<in> set new. taskOK e s u)"
proof (cases t)
  case (StatFilePattern roots)
  from pending_walkRoots[of roots _ s] StatFilePattern assms(2) show ?thesis by fastforce
next
  case (ReaddirRoot a js)
  from pending_recurse[of e a _ js s] have r: "\<exists>new. pending (recurse e a files js s) = pending s @ new \<and> (\<forall>u \<in> set new. taskOK e s u)" for files
    by (metis entryOf_OK taskOK.simps(7))
  from ReaddirRoot assms(2) r show ?thesis
    by (auto simp: pathPattern_def split: sum.splits if_splits)
next
  case (StatRelative base files js)
  have r: "\<exists>new. pending (recurse e base files js m) = pending m @ new \<and> (\<forall>u \<in> set new. taskOK e m u)" for m
    using pending_recurse[of e base files js m] by (metis entryOf_OK taskOK.simps(7))
  have o: "taskOK e (onResult p s) u = taskOK e s u" for p u
    by (rule taskOK_sameSetup) (simp add: sameSetup_def onResult_def)
  from StatRelative assms(2) r[of s] r[of "onResult (paths_join e base (the (filePattern s))) s"] show ?thesis
    by (auto simp: Let_def o split: sum.splits if_splits)
next
  case (ReaddirEntry cp rel f js)
  with assms(2) show ?thesis by (auto split: sum.splits if_splits)
next
  case (Lstat cp rel children js)
  from pending_walkRealPath[of e cp rel children js cp s]
  have w: "\<exists>new. pending (walkRealPath e cp rel children js cp s) = pending s @ new \<and> (\<forall>u \<in> set new. taskOK e s u)"
    by (metis entryOf_OK)
  from Lstat assms w show ?thesis by (auto split: sum.splits if_splits)
next
  case (Realpath cp rel children js)
  have w: "\<exists>new. pending (walkRealPath e cp rel children js rp s) = pending s @ new \<and> (\<forall>u \<in> set new. taskOK e s u)" for rp
    using pending_walkRealPath[of e cp rel children js rp s] by (metis entryOf_OK)
  from Realpath assms w show ?thesis by (auto split: sum.splits if_splits)
next
  case (NativeCommand a js)
  with assms(2) pending_nativeClosed[of e a js s s'] show ?thesis by simp
qed

lemma step_moves:
  assumes "tasksOK e s" and "step e s ev = Some s'"
  shows "(move e)\<^sup>*\<^sup>* s s' \<and> tasksOK e s'"
proof (cases ev)
  case Cancel
  with assms(2) have s': "s' = cancel s" by simp
  have m: "(move e)\<^sup>*\<^sup>* s s'" unfolding s' by (intro r_into_rtranclp move.cancelled)
  have "pending s' = pending s" by (simp add: s' cancel_def terminateNative_def split: option.splits)
  with assms(1) taskOK_sameSetup[OF moves_sameSetup[OF m]] m show ?thesis by (simp add: tasksOK_def)
next
  case (Fire i)
  let ?t = "pending s ! i"
  let ?s = "s\<lparr>pending := take i (pending s) @ drop (Suc i) (pending s)\<rparr>"
  from Fire assms(2) have i: "i < length (pending s)" and f: "fire e ?t ?s = Some s'"
    by (auto split: if_splits)
  have ss: "sameSetup s ?s" by (simp add: sameSetup_def)
  from assms(1) i have "taskOK e s ?t" by (simp add: tasksOK_def)
  with taskOK_sameSetup[OF ss] have ok: "taskOK e ?s ?t" by simp
  have q: "(move e)\<^sup>*\<^sup>* s ?s" by (rule mv_quiet) simp
  from fire_moves[OF ok f] q have m: "(move e)\<^sup>*\<^sup>* s s'" by (rule rtranclp_trans[rotated])
  from fire_newTasks[OF ok f] obtain new where
    n: "pending s' = pending ?s @ new" "\<forall>u \<in> set new. taskOK e ?s u" by blast
  have "\<forall>u \<in> set (pending ?s). taskOK e s u"
    using assms(1) by (auto simp: tasksOK_def dest: in_set_takeD in_set_dropD)
  with n taskOK_sameSetup[OF ss] taskOK_sameSetup[OF moves_sameSetup[OF m]]
  have "tasksOK e s'" by (auto simp: tasksOK_def)
  with m show ?thesis by simp
qed

lemma run_moves:
  "tasksOK e s \<Longrightarrow> run e s evs = Some s' \<Longrightarrow> (move e)\<^sup>*\<^sup>* s s' \<and> tasksOK e s'"
proof (induction evs arbitrary: s)
  case Nil
  then show ?case by simp
next
  case (Cons ev evs)
  from Cons.prems(2) obtain m where m: "step e s ev = Some m" "run e m evs = Some s'"
    by (auto split: option.splits)
  from step_moves[OF Cons.prems(1) m(1)] Cons.IH[OF _ m(2)] show ?case
    by (auto intro: rtranclp_trans)
qed

section \<open>File walker: what holds along every schedule\<close>

lemma walk_from_start: "quiet (walkStart w) (walk e roots w) \<and> tasksOK e (walk e roots w)"
proof -
  let ?s = "walkStart w"
  have p: "pending ?s = []" by (simp add: walkStart_def)
  have fp: "filePattern (walk e roots w) = filePattern ?s"
           "searchInPath (walk e roots w) = searchInPath ?s"
           "disableFastFileLookup (walk e roots w) = disableFastFileLookup ?s"
    if "quiet ?s (walk e roots w)" using that by (simp_all add: quiet_def core_def)
  have w: "walk e roots w =
     (if \<not> truthy (filePattern ?s) \<or> \<not> paths_isAbsolute e (the (filePattern ?s))
      then walkRoots roots False ?s
      else if the (filePattern ?s) \<in> set roots then walkRoots roots False ?s
      else start (StatFilePattern roots) ?s)"
    by (simp add: walk_def walkStart_def Let_def)
  have q1: "quiet ?s (walkRoots roots False ?s)"
    by (auto simp: walkRoots_def Let_def intro: quiet_trans[OF quiet_startJoin quiet_startRoots])
  have q: "quiet ?s (walk e roots w)" unfolding w using q1 by simp
  from pending_walkRoots[of roots False ?s] p
  have t1: "\<forall>t \<in> set (pending (walkRoots roots False ?s)). \<exists>p js. t = ReaddirRoot p js" by auto
  have "\<forall>t \<in> set (pending (walk e roots w)). taskOK e ?s t"
    unfolding w using t1 p by (auto simp: pathPattern_def)
  moreover have "sameSetup ?s (walk e roots w)"
    using q by (simp add: sameSetup_def quiet_def core_def)
  ultimately show ?thesis using q taskOK_sameSetup by (auto simp: tasksOK_def)
qed

lemma reachable_moves:
  assumes "run e (walk e roots w) evs = Some s"
  shows "(move e)\<^sup>*\<^sup>* (walkStart w) s"
proof -
  from walk_from_start[of w e roots] have q: "quiet (walkStart w) (walk e roots w)"
    and t: "tasksOK e (walk e roots w)" by simp_all
  from run_moves[OF t assms] mv_quiet[OF q] show ?thesis by (auto intro: rtranclp_trans)
qed









lemma pathPattern_start: "pathPattern e (walkStart w) = pathPattern e w"
  by (simp add: pathPattern_def walkStart_def resetState_def terminateNative_def split: option.splits)

section \<open>File walker: every callback lessens the work left\<close>

lemma entryCost_mono: "n \<le> m \<Longrightarrow> entryCost b n \<le> entryCost b m"
  by (simp add: entryCost_def power_increasing)

lemma entryCost_ge: "3 \<le> entryCost b n"
proof -
  have "1 \<le> (b + 1) ^ n" by simp
  then show ?thesis unfolding entryCost_def by linarith
qed

lemma entryCost_Suc: "b * entryCost b n + 3 \<le> entryCost b (Suc n)"
proof -
  have "1 \<le> (b + 1) ^ n" by simp
  then have "3 \<le> 3 * (b + 1) ^ n" by linarith
  moreover have "entryCost b (Suc n) = b * entryCost b n + 3 * (b + 1) ^ n"
    by (simp add: entryCost_def algebra_simps)
  ultimately show ?thesis by linarith
qed

lemma entryCost_less:
  assumes "n < m"
  shows "b * entryCost b n + 3 \<le> entryCost b m"
proof -
  from assms have "Suc n \<le> m" by simp
  from entryCost_mono[OF this, of b] entryCost_Suc[of b n] show ?thesis by linarith
qed




lemma taskCost_pos: "0 < taskCost e depth D b tp c t"
proof (cases t)
  case (ReaddirEntry q rel f js)
  with entryCost_ge[of b "rank e depth D c q"] show ?thesis by simp
next
  case (Lstat q rel ch js)
  with entryCost_ge[of b "rank e depth D c q"] show ?thesis by simp
next
  case (Realpath q rel ch js)
  with entryCost_ge[of b "rank e depth D c q"] show ?thesis by simp
qed simp_all







lemma unwalked_same: "walkedPaths s' = walkedPaths s \<Longrightarrow> unwalked K s' = unwalked K s"
  by (simp add: unwalked_def)


lemma work_quiet:
  assumes "quiet s s'" and "pending s' = pending s"
  shows "work e K depth D b s' < work e K depth D b s + taskCost e depth D b tp c t"
proof -
  from quiet_fields(12)[OF assms(1)] have "unwalked K s' = unwalked K s" by (rule unwalked_same)
  with assms(2) have "work e K depth D b s' = work e K depth D b s" by (simp add: work_def)
  with taskCost_pos[of e depth D b tp c t] show ?thesis by simp
qed


lemma work_onResult [simp]: "work e K depth D b (onResult p s) = work e K depth D b s"
  by (simp add: work_def unwalked_def onResult_def)

lemma work_reportMatch [simp]: "work e K depth D b (reportMatch p s) = work e K depth D b s"
  by (simp add: work_def unwalked_def)

lemma work_callback [simp]: "work e K depth D b (callback js None s) = work e K depth D b s"
  using quiet_fields(12)[OF quiet_callback, of js s] by (simp add: work_def unwalked_def)













section \<open>File walker: every schedule of the portable walk is finite\<close>


lemma work_cancel [simp]: "work e K depth D b (cancel s) = work e K depth D b s"
  by (simp add: work_def unwalked_def cancel_def terminateNative_def split: option.splits)







lemma isLoopPath_root [simp]: "isLoopPath ''/r''"
  by (simp add: isLoopPath_def)


section \<open>File walker: a failed \<open>readdir\<close>\<close>





section \<open>File walker: a stopped walk\<close>

text \<open>For a pattern that is not a path every result is a counted match, and a match is
  counted only while the walker is neither cancelled nor at its limit: once a flag is up
  it stays up and nothing more is emitted, whatever the schedule.\<close>

lemma stopped_move:
  assumes "move e s s'" and "\<not> pathPattern e s" and "isCanceled s \<or> isLimitHit s"
  shows "emitted s' = emitted s \<and> (isCanceled s' \<or> isLimitHit s') \<and> \<not> pathPattern e s'"
  using assms
proof (induction rule: move.induct)
  case (quietly s s')
  from quiet_fields[OF quietly(1)] quietly(2,3) show ?case by (simp add: pathPattern_def)
next
  case (report s p)
  then show ?case by simp
next
  case (pattern s p)
  then show ?case by simp
next
  case (descend rp s)
  then show ?case by (simp add: pathPattern_def)
next
  case (cancelled s)
  then show ?case
    by (simp add: pathPattern_def cancel_def terminateNative_def split: option.splits)
qed

lemma stopped_moves:
  "(move e)\<^sup>*\<^sup>* s s' \<Longrightarrow> \<not> pathPattern e s \<Longrightarrow> isCanceled s \<or> isLimitHit s \<Longrightarrow>
   emitted s' = emitted s \<and> (isCanceled s' \<or> isLimitHit s') \<and> \<not> pathPattern e s'"
proof (induction rule: rtranclp_induct)
  case base
  then show ?case by simp
next
  case (step m s')
  from step.IH[OF step.prems] stopped_move[OF step.hyps(2)] show ?case by simp
qed

lemma stopped_walk_emits_nothing:
  assumes "\<not> pathPattern e w" and "run e (walk e roots w) evs = Some s"
    and "isCanceled s \<or> isLimitHit s" and "run e s evs' = Some s'"
  shows "emitted s' = emitted s \<and> (isCanceled s' \<or> isLimitHit s')"
proof -
  from walk_from_start[of w e roots] have t0: "tasksOK e (walk e roots w)" by simp
  from run_moves[OF t0 assms(2)] have t: "tasksOK e s" by simp
  from assms(1) have "\<not> pathPattern e (walkStart w)" by (simp add: pathPattern_start)
  with moves_sameSetup[OF reachable_moves[OF assms(2)]] have np: "\<not> pathPattern e s"
    by (simp add: pathPattern_def sameSetup_def)
  from run_moves[OF t assms(4)] have "(move e)\<^sup>*\<^sup>* s s'" by simp
  from stopped_moves[OF this np assms(3)] show ?thesis by simp
qed

section \<open>File walker: the claims\<close>




text \<open>
  C2 at the failing input: the pattern \<open>/proj/a.ts\<close> is the absolute path of a file and
  the owner cancels before the \<open>stat\<close> of the pattern is answered. After the
  cancellation nothing has been emitted; the callback of the \<open>stat\<close> then emits the
  file, with the cancellation flag up. The counted matches are guarded
  (\<open>stopped_walk_emits_nothing\<close>); the report of the pattern's file is not.
\<close>

theorem C2_result_after_cancel:
  "map_option (\<lambda>s. (isCanceled s, emitted s))
     (run envA (walk envA [''/proj''] (newFileWalker envA cfgPattern)) [Cancel]) =
   Some (True, []) \<and>
   map_option (\<lambda>s. (isCanceled s, emitted s, finished s))
     (run envA (walk envA [''/proj''] (newFileWalker envA cfgPattern)) [Cancel, Fire 0, Fire 0]) =
   Some (True, [''/proj/a.ts''], [(None, False)])"
  by code_simp

theorem C2_witness:
  "map_option emitted
     (run envA (walk envA [''/proj''] (newFileWalker envA cfgPattern)) [Cancel]) = Some [] \<and>
   map_option emitted
     (run envA (walk envA [''/proj''] (newFileWalker envA cfgPattern)) [Cancel, Fire 0, Fire 0]) =
   Some [''/proj/a.ts'']"
proof -
  from C2_result_after_cancel obtain s s' where
    "run envA (walk envA [''/proj''] (newFileWalker envA cfgPattern)) [Cancel] = Some s"
    "emitted s = []"
    "run envA (walk envA [''/proj''] (newFileWalker envA cfgPattern)) [Cancel, Fire 0, Fire 0]
       = Some s'"
    "emitted s' = [''/proj/a.ts'']"
    by (auto simp: map_option_eq_Some)
  then show ?thesis by simp
qed






end
